theory Spec2Isabelle
  imports Complex_Main
begin

section \<open>Grid layout: \<^verbatim>\<open>danpy/grid_layout.py\<close>\<close>

text \<open>Python's exceptions, as far as the modelled code meets them.\<close>

datatype error = OverflowError | TypeError | OSError | ValueError

text \<open>
  Both layout functions bound their divisor search by a root of \<open>count\<close> that Python
  evaluates in IEEE double precision and then truncates:
  \<^verbatim>\<open>int(count ** (1.0 / 2.0))\<close> and \<^verbatim>\<open>int(count ** (1.0 / 3.0))\<close>.
  The integer these expressions yield is the result of double arithmetic, which has no
  counterpart in HOL, so it is an argument of the model: \<open>pow_half fp count\<close> for the
  first expression, \<open>pow_third fp count\<close> for the second. What a theorem needs to know
  about these values it says in its hypotheses.

  When the expressions have a value at all is integer arithmetic and is modelled:
  \<^item> \<open>int ** float\<close> converts the integer to a double first, rounding to nearest, and
    raises OverflowError when the result is not finite, that is when
    \<open>\<bar>count\<bar> \<ge> 2 ^ 1024 - 2 ^ 970\<close> (\<open>float_limit\<close>);
  \<^item> a negative base with a fractional exponent gives a complex number, on which
    \<open>int\<close> raises TypeError.
\<close>

record float_ops =
  pow_half :: "int \<Rightarrow> int"
  pow_third :: "int \<Rightarrow> int"

definition float_limit :: int where
  "float_limit = 2 ^ 1024 - 2 ^ 970"

definition truncated_root :: "(int \<Rightarrow> int) \<Rightarrow> int \<Rightarrow> error + int" where
  "truncated_root f count =
     (if float_limit \<le> \<bar>count\<bar> then Inl OverflowError
      else if count < 0 then Inl TypeError
      else Inr (f count))"

text \<open>
  \<^verbatim>\<open>
  root = 1
  for i in range(2, int(count ** (1.0 / 2.0)) + 1):
      if count % i == 0:
          root = i
  return (root, count // root)
  \<close>
  \<open>range(2, b + 1)\<close> is the list \<open>[2..b]\<close>; Python's \<open>%\<close> and \<open>//\<close> on integers
  are floor remainder and floor division, as \<open>mod\<close> and \<open>div\<close> on \<open>int\<close>.
\<close>

definition grid_layout_2d :: "float_ops \<Rightarrow> int \<Rightarrow> error + int \<times> int" where
  "grid_layout_2d fp count =
     (case truncated_root (pow_half fp) count of
        Inl e \<Rightarrow> Inl e
      | Inr b \<Rightarrow>
          (let root = fold (\<lambda>i root. if count mod i = 0 then i else root) [2..b] 1
           in Inr (root, count div root)))"

text \<open>
  \<^verbatim>\<open>
  root = 1
  for i in range(2, int(count ** (1.0 / 3.0)) + 1):
      if count % i == 0:
          root = i
  (ny, nx) = grid_layout_2d(count // root)
  return (root, ny, nx)
  \<close>
\<close>

definition grid_layout_3d :: "float_ops \<Rightarrow> int \<Rightarrow> error + int \<times> int \<times> int" where
  "grid_layout_3d fp count =
     (case truncated_root (pow_third fp) count of
        Inl e \<Rightarrow> Inl e
      | Inr b \<Rightarrow>
          (let root = fold (\<lambda>i root. if count mod i = 0 then i else root) [2..b] 1
           in case grid_layout_2d fp (count div root) of
                Inl e \<Rightarrow> Inl e
              | Inr (ny, nx) \<Rightarrow> Inr (root, ny, nx)))"

text \<open>
  Two instances. In \<open>exact_roots\<close> both expressions evaluate to the floor of the true
  root. In \<open>constant_roots h t\<close> they evaluate to \<open>h\<close> and \<open>t\<close>, to state what the
  functions return at one input where the value of the expression has been measured.
\<close>

definition exact_roots :: float_ops where
  "exact_roots =
     \<lparr>pow_half = (\<lambda>count. \<lfloor>sqrt (of_int count)\<rfloor>),
      pow_third = (\<lambda>count. \<lfloor>root 3 (of_int count)\<rfloor>)\<rparr>"

definition constant_roots :: "int \<Rightarrow> int \<Rightarrow> float_ops" where
  "constant_roots h t = \<lparr>pow_half = (\<lambda>count. h), pow_third = (\<lambda>count. t)\<rparr>"

section \<open>Image tiling: \<^verbatim>\<open>danpy/image.py\<close> and \<^verbatim>\<open>danpy/image_tile.py\<close>\<close>

text \<open>
  The tiler exists twice in the repository, with the same tiling code: in
  \<^verbatim>\<open>danpy/image.py\<close>, \<open>image_tile\<close> takes sources that are paths or loaded
  images (\<open>to_image\<close>) and returns the canvas; in \<^verbatim>\<open>danpy/image_tile.py\<close> it takes
  paths only, opens each with \<^verbatim>\<open>Image.open\<close>, saves the canvas to \<open>out_path\<close> and
  returns nothing. Both are modelled; the second carries the suffix \<open>_saving\<close>.

  Pillow is an external library. Its image objects are modelled by what the tiler reads
  from them (width, height) and a tag for their pixel data; a canvas is modelled by the
  Pillow calls that built it (\<^verbatim>\<open>Image.new\<close>, \<^verbatim>\<open>paste\<close>, \<^verbatim>\<open>resize\<close>). Of Pillow's own
  failures three are modelled: a file that cannot be opened, a target resolution with a
  zero side, and saving an empty image. Others (an unknown colour name, an unknown file
  extension) are not part of the model. Widths, heights, pixel coordinates and the sides of a resolution are
  pixel counts, natural numbers.
\<close>

record image =
  width :: nat
  height :: nat
  pixel_data :: string

text \<open>\<open>ImageT = Image.Image | str | Path\<close>; \<open>Other\<close> is a value of any other type.\<close>

datatype source = Path string | Loaded image | Other string

text \<open>The files: what \<^verbatim>\<open>Image.open\<close> finds at a path, \<open>None\<close> where it fails.\<close>

type_synonym files = "string \<Rightarrow> image option"

definition Image_open :: "files \<Rightarrow> string \<Rightarrow> error + image" where
  "Image_open fs p = (case fs p of None \<Rightarrow> Inl OSError | Some img \<Rightarrow> Inr img)"

fun to_image :: "files \<Rightarrow> source \<Rightarrow> error + image" where
  "to_image fs (Path p) = Image_open fs p"
| "to_image fs (Loaded img) = Inr img"
| "to_image fs (Other t) = Inl TypeError"

datatype canvas =
    New "nat \<times> nat" string
  | Paste canvas image "nat \<times> nat"
  | Resize canvas "nat \<times> nat"

fun canvas_size :: "canvas \<Rightarrow> nat \<times> nat" where
  "canvas_size (New sz bg) = sz"
| "canvas_size (Paste cv img xy) = canvas_size cv"
| "canvas_size (Resize cv sz) = sz"

text \<open>The paste calls made on a canvas, oldest first, each with its top-left corner.\<close>

fun pastes :: "canvas \<Rightarrow> (image \<times> nat \<times> nat) list" where
  "pastes (New sz bg) = []"
| "pastes (Paste cv img xy) = pastes cv @ [(img, xy)]"
| "pastes (Resize cv sz) = pastes cv"

fun fill :: "canvas \<Rightarrow> string" where
  "fill (New sz bg) = bg"
| "fill (Paste cv img xy) = fill cv"
| "fill (Resize cv sz) = fill cv"

text \<open>
  \<^verbatim>\<open>combined_img.resize(resolution, Resampling.LANCZOS)\<close>: when the target size is
  the size the image has, Pillow returns a copy of it; otherwise it requires both
  sides of the target size to be at least 1 (ValueError).
\<close>

definition Image_resize :: "canvas \<Rightarrow> nat \<times> nat \<Rightarrow> error + canvas" where
  "Image_resize cv res =
     (if canvas_size cv = res then Inr cv
      else if fst res < 1 \<or> snd res < 1 then Inl ValueError
      else Inr (Resize cv res))"

text \<open>
  \<^verbatim>\<open>combined_img.save(out_path)\<close>: Pillow refuses to write an image with a zero side
  (ValueError); otherwise the file at \<open>out_path\<close> holds the image.
\<close>

definition Image_save :: "canvas \<Rightarrow> string \<Rightarrow> error + string \<times> canvas" where
  "Image_save cv out_path =
     (if fst (canvas_size cv) = 0 \<or> snd (canvas_size cv) = 0 then Inl ValueError
      else Inr (out_path, cv))"

text \<open>
  Loading, the first loop of \<open>image_tile\<close>. The first source that fails ends the call.
  \<^verbatim>\<open>
  for path_row in in_paths:
      images_row = []
      for path in path_row:
          image = to_image(path)
          images_row.append(image)
      images.append(images_row)
      ncols = max(ncols, len(images_row))
  \<close>
\<close>

fun load_row :: "('s \<Rightarrow> error + image) \<Rightarrow> 's list \<Rightarrow> error + image list" where
  "load_row ld [] = Inr []"
| "load_row ld (path # path_row) =
     (case ld path of
        Inl e \<Rightarrow> Inl e
      | Inr img \<Rightarrow>
          (case load_row ld path_row of
             Inl e \<Rightarrow> Inl e
           | Inr images_row \<Rightarrow> Inr (img # images_row)))"

fun load_rows :: "('s \<Rightarrow> error + image) \<Rightarrow> 's list list \<Rightarrow> error + image list list" where
  "load_rows ld [] = Inr []"
| "load_rows ld (path_row # in_paths) =
     (case load_row ld path_row of
        Inl e \<Rightarrow> Inl e
      | Inr images_row \<Rightarrow>
          (case load_rows ld in_paths of
             Inl e \<Rightarrow> Inl e
           | Inr images \<Rightarrow> Inr (images_row # images)))"

definition count_columns :: "image list list \<Rightarrow> nat" where
  "count_columns images = fold (\<lambda>images_row ncols. max ncols (length images_row)) images 0"

text \<open>
  \<^verbatim>\<open>
  widths = [0] * ncols
  for row in range(nrows):
      for col in range(len(in_paths[row])):
          image = images[row][col]
          widths[col] = max(widths[col], image.width)
  \<close>
  \<open>images\<close> has the shape of \<open>in_paths\<close>, so \<open>len(in_paths[row])\<close> is
  \<open>length (images ! row)\<close>.
\<close>

definition column_widths :: "image list list \<Rightarrow> nat list" where
  "column_widths images =
     fold (\<lambda>row widths.
        fold (\<lambda>col widths. widths[col := max (widths ! col) (width (images ! row ! col))])
          [0..<length (images ! row)] widths)
       [0..<length images] (replicate (count_columns images) 0)"

text \<open>
  \<^verbatim>\<open>
  heights = [0] * nrows
  for row in range(nrows):
      for col in range(len(in_paths[row])):
          image = images[row][col]
          heights[row] = max(heights[row], image.height)
  \<close>
\<close>

definition row_heights :: "image list list \<Rightarrow> nat list" where
  "row_heights images =
     fold (\<lambda>row heights.
        fold (\<lambda>col heights. heights[row := max (heights ! row) (height (images ! row ! col))])
          [0..<length (images ! row)] heights)
       [0..<length images] (replicate (length images) 0)"

text \<open>
  \<^verbatim>\<open>
  for row in range(nrows):
      for col, img in enumerate(images[row]):
          x = sum(widths[:col])
          y = sum(heights[:row])
          combined_img.paste(img, (x, y))
  \<close>
\<close>

definition paste_images :: "image list list \<Rightarrow> nat list \<Rightarrow> nat list \<Rightarrow> canvas \<Rightarrow> canvas" where
  "paste_images images widths heights combined_img =
     fold (\<lambda>row combined_img.
        fold (\<lambda>(col, img) combined_img.
                Paste combined_img img (sum_list (take col widths), sum_list (take row heights)))
          (enumerate 0 (images ! row)) combined_img)
       [0..<length images] combined_img"

text \<open>
  Everything after loading, which the two modules share word for word, up to the
  optional resize.
\<close>

definition tile_loaded :: "image list list \<Rightarrow> (nat \<times> nat) option \<Rightarrow> string \<Rightarrow> error + canvas" where
  "tile_loaded images resolution background =
     (let widths = column_widths images;
          heights = row_heights images;
          width = sum_list widths;
          height = sum_list heights;
          combined_img = paste_images images widths heights (New (width, height) background)
      in case resolution of
           None \<Rightarrow> Inr combined_img
         | Some res \<Rightarrow> Image_resize combined_img res)"

text \<open>\<^verbatim>\<open>danpy/image.py\<close>: \<open>image_tile(in_paths, resolution, background) -> Image\<close>.\<close>

definition image_tile ::
  "files \<Rightarrow> source list list \<Rightarrow> (nat \<times> nat) option \<Rightarrow> string \<Rightarrow> error + canvas" where
  "image_tile fs in_paths resolution background =
     (case load_rows (to_image fs) in_paths of
        Inl e \<Rightarrow> Inl e
      | Inr images \<Rightarrow> tile_loaded images resolution background)"

text \<open>
  \<^verbatim>\<open>danpy/image_tile.py\<close>: \<open>image_tile(in_paths, out_path, resolution, background)\<close>
  opens every path, tiles, ends with \<^verbatim>\<open>combined_img.save(out_path)\<close> and returns
  \<open>None\<close>. The outcome records what the call returned and what it wrote; a failing
  \<open>save\<close> ends the call with its error.
\<close>

record outcome =
  returned :: "canvas option"
  saved :: "(string \<times> canvas) list"

definition image_tile_saving ::
  "files \<Rightarrow> string list list \<Rightarrow> string \<Rightarrow> (nat \<times> nat) option \<Rightarrow> string \<Rightarrow> error + outcome" where
  "image_tile_saving fs in_paths out_path resolution background =
     (case load_rows (Image_open fs) in_paths of
        Inl e \<Rightarrow> Inl e
      | Inr images \<Rightarrow>
          (case tile_loaded images resolution background of
             Inl e \<Rightarrow> Inl e
           | Inr combined_img \<Rightarrow>
               (case Image_save combined_img out_path of
                  Inl e \<Rightarrow> Inl e
                | Inr file \<Rightarrow> Inr \<lparr>returned = None, saved = [file]\<rparr>)))"

text \<open>
  \<^verbatim>\<open>
  paths_ = []
  idx = 0
  for _row in range(layout[0]):
      paths_row = []
      for _col in range(layout[1]):
          if idx < len(paths):
              paths_row.append(paths[idx])
          idx += 1
      paths_.append(paths_row)
  \<close>
  The state of the outer loop is \<open>(paths', idx)\<close> (\<open>paths'\<close> for \<open>paths_\<close>), that of the inner loop
  \<open>(paths_row, idx)\<close>. \<open>range\<close> of a negative number is empty.
\<close>

definition arrange :: "int \<times> int \<Rightarrow> 'a list \<Rightarrow> 'a list list" where
  "arrange layout paths =
     fst (fold (\<lambda>row (paths', idx).
            (case fold (\<lambda>col (paths_row, idx).
                          (if idx < length paths then paths_row @ [paths ! idx] else paths_row,
                           idx + 1))
                    [0..<nat (snd layout)] ([], idx) of
               (paths_row, idx') \<Rightarrow> (paths' @ [paths_row], idx')))
          [0..<nat (fst layout)] ([], 0))"

text \<open>
  \<^verbatim>\<open>layout = layout or grid_layout_2d(len(paths))\<close>: a pair is never falsy, so an
  explicit layout is always taken; without one, an error of \<open>grid_layout_2d\<close> ends
  the call.
\<close>

definition image_tile_auto ::
  "float_ops \<Rightarrow> files \<Rightarrow> source list \<Rightarrow> (int \<times> int) option \<Rightarrow> (nat \<times> nat) option \<Rightarrow> string
     \<Rightarrow> error + canvas" where
  "image_tile_auto fp fs paths layout resolution background =
     (case (case layout of
              Some l \<Rightarrow> Inr l
            | None \<Rightarrow> grid_layout_2d fp (int (length paths))) of
        Inl e \<Rightarrow> Inl e
      | Inr layout \<Rightarrow> image_tile fs (arrange layout paths) resolution background)"

definition image_tile_auto_saving ::
  "float_ops \<Rightarrow> files \<Rightarrow> string list \<Rightarrow> string \<Rightarrow> (int \<times> int) option \<Rightarrow> (nat \<times> nat) option
     \<Rightarrow> string \<Rightarrow> error + outcome" where
  "image_tile_auto_saving fp fs paths out_path layout resolution background =
     (case (case layout of
              Some l \<Rightarrow> Inr l
            | None \<Rightarrow> grid_layout_2d fp (int (length paths))) of
        Inl e \<Rightarrow> Inl e
      | Inr layout \<Rightarrow>
          image_tile_saving fs (arrange layout paths) out_path resolution background)"


section \<open>The specification's words\<close>


definition spec_column_width :: "image list list \<Rightarrow> nat \<Rightarrow> nat" where
  "spec_column_width images c =
     Max (set (concat (map (\<lambda>row. if c < length row then [width (row ! c)] else []) images)))"

definition spec_row_height :: "image list \<Rightarrow> nat" where
  "spec_row_height row = (if row = [] then 0 else Max (set (map height row)))"


definition spec_corner :: "image list list \<Rightarrow> nat \<Rightarrow> nat \<Rightarrow> nat \<times> nat" where
  "spec_corner images r c =
     (sum_list (map (spec_column_width images) [0..<c]),
      sum_list (map spec_row_height (take r images)))"

definition spec_pastes :: "image list list \<Rightarrow> (image \<times> nat \<times> nat) list" where
  "spec_pastes images =
     concat (map (\<lambda>r. map (\<lambda>c. (images ! r ! c, spec_corner images r c))
                          [0..<length (images ! r)])
               [0..<length images])"

text \<open>
  A paste of \<open>img\<close> at \<open>(x, y)\<close> paints the pixels of the rectangle
  \<open>[x, x + width img) \<times> [y, y + height img)\<close>: Pillow pastes at the image's own size.
\<close>

definition covers :: "image \<times> nat \<times> nat \<Rightarrow> nat \<times> nat \<Rightarrow> bool" where
  "covers p px =
     (case p of (img, x, y) \<Rightarrow>
        x \<le> fst px \<and> fst px < x + width img \<and> y \<le> snd px \<and> snd px < y + height img)"

text \<open>
  The cell of row \<open>r\<close> and column \<open>c\<close>: the rectangle that starts at the image's corner
  and has the column's width and the row's height.
\<close>

definition in_cell :: "image list list \<Rightarrow> nat \<Rightarrow> nat \<Rightarrow> nat \<times> nat \<Rightarrow> bool" where
  "in_cell images r c px =
     (case spec_corner images r c of (x, y) \<Rightarrow>
        x \<le> fst px \<and> fst px < x + spec_column_width images c \<and>
        y \<le> snd px \<and> snd px < y + spec_row_height (images ! r))"

section \<open>Concrete inputs\<close>

definition img_a :: image where
  "img_a = \<lparr>width = 2, height = 3, pixel_data = ''a''\<rparr>"

definition img_b :: image where
  "img_b = \<lparr>width = 5, height = 1, pixel_data = ''b''\<rparr>"

definition img_c :: image where
  "img_c = \<lparr>width = 1, height = 1, pixel_data = ''c''\<rparr>"

definition no_files :: files where
  "no_files = (\<lambda>p. None)"

definition some_files :: files where
  "some_files =
     (\<lambda>p. if p = ''a.png'' then Some img_a
          else if p = ''b.png'' then Some img_b
          else if p = ''c.png'' then Some img_c
          else None)"

section \<open>Auxiliary definitions\<close>

text \<open>One row's contribution to the column widths, as a function on the whole list.\<close>

definition widen :: "image list \<Rightarrow> nat list \<Rightarrow> nat list" where
  "widen row ws =
     map (\<lambda>c. if c < length row then max (ws ! c) (width (row ! c)) else ws ! c)
       [0..<length ws]"

section \<open>Lemmas about the grid layout\<close>

subsection \<open>The divisor search\<close>

lemma divisor_loop_step:
  "2 \<le> b \<Longrightarrow>
   fold (\<lambda>i root. if count mod i = 0 then i else root) [2..b] (1::int) =
     (if count mod b = 0 then b
      else fold (\<lambda>i root. if count mod i = 0 then i else root) [2..b - 1] 1)"
  by (simp add: upto_rec2)

lemma divisor_loop_cases:
  fixes count b :: int
  defines "r \<equiv> fold (\<lambda>i root. if count mod i = 0 then i else root) [2..b] 1"
  shows "(r = 1 \<and> (\<forall>d. 2 \<le> d \<and> d \<le> b \<longrightarrow> count mod d \<noteq> 0)) \<or>
         (2 \<le> r \<and> r \<le> b \<and> count mod r = 0 \<and>
          (\<forall>d. 2 \<le> d \<and> d \<le> b \<and> count mod d = 0 \<longrightarrow> d \<le> r))"
  unfolding r_def
proof (induction "nat (b - 1)" arbitrary: b)
  case 0
  then have "b < 2" by simp
  then show ?case by simp
next
  case (Suc n)
  then have b: "2 \<le> b" and n: "n = nat ((b - 1) - 1)" by simp_all
  note IH = Suc.hyps(1)[OF n]
  define r' where "r' = fold (\<lambda>i root. if count mod i = 0 then i else root) [2..b - 1] 1"
  have IH': "(r' = 1 \<and> (\<forall>d. 2 \<le> d \<and> d \<le> b - 1 \<longrightarrow> count mod d \<noteq> 0)) \<or>
         (2 \<le> r' \<and> r' \<le> b - 1 \<and> count mod r' = 0 \<and>
          (\<forall>d. 2 \<le> d \<and> d \<le> b - 1 \<and> count mod d = 0 \<longrightarrow> d \<le> r'))"
    unfolding r'_def by (rule IH)
  have step: "fold (\<lambda>i root. if count mod i = 0 then i else root) [2..b] 1 =
      (if count mod b = 0 then b else r')"
    unfolding r'_def using b by (rule divisor_loop_step)
  show ?case
  proof (cases "count mod b = 0")
    case True
    then show ?thesis unfolding step using b by simp
  next
    case False
    have lt: "d \<le> b - 1" if "d \<le> b" "count mod d = 0" for d
    proof -
      from that False have "d \<noteq> b" by auto
      with that show ?thesis by simp
    qed
    from IH' show ?thesis
    proof
      assume "r' = 1 \<and> (\<forall>d. 2 \<le> d \<and> d \<le> b - 1 \<longrightarrow> count mod d \<noteq> 0)"
      then show ?thesis unfolding step using False lt by auto
    next
      assume "2 \<le> r' \<and> r' \<le> b - 1 \<and> count mod r' = 0 \<and>
          (\<forall>d. 2 \<le> d \<and> d \<le> b - 1 \<and> count mod d = 0 \<longrightarrow> d \<le> r')"
      then show ?thesis unfolding step using False lt by auto
    qed
  qed
qed

lemma divisor_loop_pos:
  "1 \<le> fold (\<lambda>i root. if count mod i = 0 then i else root) [2..b] (1::int)"
  using divisor_loop_cases [of count b] by auto

lemma divisor_loop_dvd:
  "fold (\<lambda>i root. if count mod i = 0 then i else root) [2..b] (1::int) dvd count"
  using divisor_loop_cases [of count b] by auto

subsection \<open>Exact integer roots\<close>

lemma floor_sqrt_eq:
  assumes "0 \<le> b" "b * b \<le> n" "n < (b + 1) * (b + 1)"
  shows "\<lfloor>sqrt (of_int n)\<rfloor> = b"
proof (rule floor_unique)
  have "(of_int (b * b) :: real) \<le> of_int n"
    using assms(2) by (simp only: of_int_le_iff)
  then have "(of_int b)\<^sup>2 \<le> (of_int n :: real)"
    by (simp add: power2_eq_square)
  then show "of_int b \<le> sqrt (of_int n)"
    using assms(1) by (simp add: real_le_rsqrt)
  have "(of_int n :: real) < of_int ((b + 1) * (b + 1))"
    using assms(3) by (simp only: of_int_less_iff)
  then have "(of_int n :: real) < (of_int b + 1)\<^sup>2"
    by (simp add: power2_eq_square)
  then show "sqrt (of_int n) < of_int b + 1"
    using assms(1) by (simp add: real_less_lsqrt)
qed


lemma floor_root3_eq:
  assumes "0 \<le> b" "b * b * b \<le> n" "n < (b + 1) * (b + 1) * (b + 1)"
  shows "\<lfloor>root 3 (of_int n)\<rfloor> = b"
proof (rule floor_unique)
  have "(of_int (b * b * b) :: real) \<le> of_int n"
    using assms(2) by (simp only: of_int_le_iff)
  then have "(of_int b)^3 \<le> (of_int n :: real)"
    by (simp add: power3_eq_cube)
  then have "root 3 ((of_int b)^3) \<le> root 3 (of_int n)" by simp
  then show "of_int b \<le> root 3 (of_int n)"
    using assms(1) by (simp add: real_root_power_cancel)
  have "(of_int n :: real) < of_int ((b + 1) * (b + 1) * (b + 1))"
    using assms(3) by (simp only: of_int_less_iff)
  then have "(of_int n :: real) < (of_int b + 1)^3"
    by (simp add: power3_eq_cube)
  then have "root 3 (of_int n) < root 3 ((of_int b + 1)^3)" by simp
  then show "root 3 (of_int n) < of_int b + 1"
    using assms(1) by (simp add: real_root_power_cancel)
qed


lemma exact_third_64: "pow_third exact_roots 64 = 4"
  unfolding exact_roots_def using floor_root3_eq [of 4 64] by simp

lemma exact_half_4: "pow_half exact_roots 4 = 2"
  unfolding exact_roots_def using floor_sqrt_eq [of 2 4] by simp


subsection \<open>When the roots have a value\<close>

lemma float_limit_large: "2 ^ 64 < float_limit"
  by (simp add: float_limit_def)

lemma below_float_limit: "count \<le> 2 ^ 64 \<Longrightarrow> count < float_limit"
  using float_limit_large by simp


lemma truncated_root_Inr:
  "0 \<le> count \<Longrightarrow> count < float_limit \<Longrightarrow> truncated_root f count = Inr (f count)"
  by (simp add: truncated_root_def)


lemma truncated_root_negative:
  "count < 0 \<Longrightarrow> - float_limit < count \<Longrightarrow> truncated_root f count = Inl TypeError"
  by (simp add: truncated_root_def)

subsection \<open>Products and order of the layouts\<close>

lemma grid_layout_2d_Inr:
  assumes "0 \<le> count" and "count < float_limit"
  shows "grid_layout_2d fp count =
           Inr (fold (\<lambda>i root. if count mod i = 0 then i else root) [2..pow_half fp count] 1,
                count div fold (\<lambda>i root. if count mod i = 0 then i else root)
                            [2..pow_half fp count] 1)"
  by (simp add: grid_layout_2d_def truncated_root_Inr [OF assms] Let_def)


lemma grid_layout_2d_product:
  assumes "grid_layout_2d fp count = Inr (rows, cols)"
  shows "rows * cols = count" and "1 \<le> rows"
    and "rows = fold (\<lambda>i root. if count mod i = 0 then i else root) [2..pow_half fp count] 1"
proof -
  let ?r = "fold (\<lambda>i root. if count mod i = 0 then i else root) [2..pow_half fp count] 1"
  from assms have rc: "rows = ?r" "cols = count div ?r"
    by (auto simp: grid_layout_2d_def truncated_root_def Let_def split: if_splits)
  show "rows = ?r" by (rule rc)
  show "1 \<le> rows" unfolding rc by (rule divisor_loop_pos)
  have "?r dvd count" by (rule divisor_loop_dvd)
  then show "rows * cols = count" by (simp add: rc)
qed






subsection \<open>Two large counts\<close>





section \<open>The tiling loops\<close>

subsection \<open>Loading\<close>

lemma load_row_Inr_iff:
  "load_row ld ps = Inr imgs \<longleftrightarrow> map ld ps = map Inr imgs"
proof (induction ps arbitrary: imgs)
  case Nil
  show ?case by auto
next
  case (Cons p ps)
  show ?case
  proof (cases "ld p")
    case (Inl e)
    then show ?thesis by (cases imgs) auto
  next
    case (Inr img)
    show ?thesis
    proof (cases "load_row ld ps")
      case (Inl e)
      with Cons Inr show ?thesis by (cases imgs) auto
    next
      case r: (Inr rest)
      with Cons [of rest] Cons [of "tl imgs"] Inr show ?thesis by (cases imgs) auto
    qed
  qed
qed

lemma load_rows_Inr_iff:
  "load_rows ld g = Inr images \<longleftrightarrow> map (map ld) g = map (map Inr) images"
proof (induction g arbitrary: images)
  case Nil
  show ?case by auto
next
  case (Cons row g)
  show ?case
  proof (cases "load_row ld row")
    case (Inl e)
    then have "\<And>imgs. map ld row \<noteq> map Inr imgs"
      using load_row_Inr_iff [of ld row] by auto
    with Inl show ?thesis by (cases images) auto
  next
    case (Inr imgs)
    then have m: "map ld row = map Inr imgs" by (simp add: load_row_Inr_iff)
    have inj: "map Inr imgs = map Inr imgs' \<longleftrightarrow> imgs = imgs'" for imgs' :: "image list"
      by (simp add: inj_map_eq_map [of Inr])
    show ?thesis
    proof (cases "load_rows ld g")
      case (Inl e)
      with Cons Inr show ?thesis by (cases images) auto
    next
      case r: (Inr rest)
      with Cons [of rest] Cons [of "tl images"] Inr m show ?thesis
        by (cases images) (auto simp: inj)
    qed
  qed
qed

subsection \<open>Column widths\<close>

lemma fold_nth_index: "fold (\<lambda>i. f (xs ! i)) [0..<length xs] s = fold f xs s"
proof -
  have "fold f (map (\<lambda>i. xs ! i) [0..<length xs]) s = fold (\<lambda>i. f (xs ! i)) [0..<length xs] s"
    by (simp add: fold_map comp_def)
  then show ?thesis by (simp add: map_nth)
qed

lemma widen_row:
  "n \<le> length ws \<Longrightarrow>
   fold (\<lambda>col ws. ws[col := max (ws ! col) (f col)]) [0..<n] ws =
     map (\<lambda>c. if c < n then max (ws ! c) (f c) else ws ! c) [0..<length ws]"
proof (induction n)
  case 0
  show ?case by (simp add: map_nth)
next
  case (Suc n)
  then have n: "n < length ws" by simp
  have "fold (\<lambda>col ws. ws[col := max (ws ! col) (f col)]) [0..<Suc n] ws =
        (map (\<lambda>c. if c < n then max (ws ! c) (f c) else ws ! c) [0..<length ws])
          [n := max (ws ! n) (f n)]"
    using Suc n by simp
  also have "\<dots> = map (\<lambda>c. if c < Suc n then max (ws ! c) (f c) else ws ! c) [0..<length ws]"
    using n by (intro nth_equalityI) (auto simp: nth_list_update less_Suc_eq)
  finally show ?case .
qed

lemma length_widen: "length (widen row ws) = length ws"
  by (simp add: widen_def)

lemma column_widths_fold_widen:
  assumes "\<forall>row\<in>set images. length row \<le> n"
  shows "fold (\<lambda>row widths.
        fold (\<lambda>col widths. widths[col := max (widths ! col) (width (images ! row ! col))])
          [0..<length (images ! row)] widths)
       [0..<length images] (replicate n 0) = fold widen images (replicate n 0)"
proof -
  have len: "length (fold widen rows ws) = length ws" for rows ws
    by (induction rows arbitrary: ws) (simp_all add: length_widen)
  have "fold (\<lambda>row widths.
        fold (\<lambda>col widths. widths[col := max (widths ! col) (width (images ! row ! col))])
          [0..<length (images ! row)] widths) [0..<k] (replicate n 0)
       = fold widen (take k images) (replicate n 0)" if "k \<le> length images" for k
    using that
  proof (induction k)
    case 0
    show ?case by simp
  next
    case (Suc k)
    then have k: "k < length images" by simp
    then have "length (images ! k) \<le> n" using assms by simp
    then have le: "length (images ! k) \<le> length (fold widen (take k images) (replicate n 0))"
      by (simp add: len)
    define prev where "prev = fold widen (take k images) (replicate n 0)"
    have IH: "fold (\<lambda>row widths.
        fold (\<lambda>col widths. widths[col := max (widths ! col) (width (images ! row ! col))])
          [0..<length (images ! row)] widths) [0..<k] (replicate n 0) = prev"
      unfolding prev_def using Suc by simp
    have le': "length (images ! k) \<le> length prev" using le by (simp add: prev_def)
    have inner: "fold (\<lambda>col widths. widths[col := max (widths ! col) (width (images ! k ! col))])
          [0..<length (images ! k)] prev = widen (images ! k) prev"
      unfolding widen_def by (rule widen_row [OF le'])
    have "fold widen (take (Suc k) images) (replicate n 0) = widen (images ! k) prev"
      using k by (simp add: take_Suc_conv_app_nth prev_def)
    then show ?case
      by (simp add: IH inner)
  qed
  from this [of "length images"] show ?thesis by simp
qed

lemma Max_insert_max:
  fixes a b :: "'a::linorder"
  assumes "finite S"
  shows "Max (insert (max a b) S) = Max (insert a (insert b S))"
proof (cases "S = {}")
  case True
  then show ?thesis by simp
next
  case False
  with assms show ?thesis by (simp add: max.assoc)
qed

lemma fold_widen_nth:
  assumes "c < length ws"
  shows "fold widen images ws ! c =
           Max (insert (ws ! c) {width (row ! c) |row. row \<in> set images \<and> c < length row})"
  using assms
proof (induction images arbitrary: ws)
  case Nil
  show ?case by simp
next
  case (Cons r images)
  let ?S = "{width (row ! c) |row. row \<in> set images \<and> c < length row}"
  have fin: "finite ?S" by simp
  have c': "c < length (widen r ws)" using Cons.prems by (simp add: length_widen)
  have step: "fold widen (r # images) ws ! c = Max (insert (widen r ws ! c) ?S)"
    using Cons.IH [OF c'] by simp
  show ?case
  proof (cases "c < length r")
    case True
    then have w: "widen r ws ! c = max (ws ! c) (width (r ! c))"
      using Cons.prems by (simp add: widen_def)
    have S: "{width (row ! c) |row. row \<in> set (r # images) \<and> c < length row} = insert (width (r ! c)) ?S"
      using True by auto
    have "Max (insert (max (ws ! c) (width (r ! c))) ?S) = Max (insert (ws ! c) (insert (width (r ! c)) ?S))"
      using fin by (rule Max_insert_max)
    then show ?thesis by (simp only: step w S)
  next
    case False
    then have w: "widen r ws ! c = ws ! c"
      using Cons.prems by (simp add: widen_def)
    have S: "{width (row ! c) |row. row \<in> set (r # images) \<and> c < length row} = ?S"
      using False by auto
    show ?thesis by (simp only: step w S)
  qed
qed

lemma count_columns_eq: "count_columns images = Max (insert 0 (length ` set images))"
proof -
  have "fold (\<lambda>images_row ncols. max ncols (length images_row)) images n =
        Max (insert n (length ` set images))" for n
  proof (induction images arbitrary: n)
    case Nil
    show ?case by simp
  next
    case (Cons r images)
    have "Max (insert (max n (length r)) (length ` set images)) =
          Max (insert n (insert (length r) (length ` set images)))"
      by (rule Max_insert_max) simp
    with Cons [of "max n (length r)"] show ?case by simp
  qed
  then show ?thesis by (simp add: count_columns_def)
qed

lemma length_le_count_columns: "row \<in> set images \<Longrightarrow> length row \<le> count_columns images"
  by (simp add: count_columns_eq)

lemma length_column_widths: "length (column_widths images) = count_columns images"
proof -
  have len: "length (fold widen rows ws) = length ws" for rows ws
    by (induction rows arbitrary: ws) (simp_all add: length_widen)
  have "column_widths images = fold widen images (replicate (count_columns images) 0)"
    unfolding column_widths_def
    by (rule column_widths_fold_widen) (simp add: length_le_count_columns)
  then show ?thesis by (simp add: len)
qed

lemma column_widths_nth:
  assumes "c < count_columns images"
  shows "column_widths images ! c =
           Max {width (row ! c) |row. row \<in> set images \<and> c < length row}"
proof -
  let ?S = "{width (row ! c) |row. row \<in> set images \<and> c < length row}"
  have eq: "column_widths images = fold widen images (replicate (count_columns images) 0)"
    unfolding column_widths_def
    by (rule column_widths_fold_widen) (simp add: length_le_count_columns)
  have "column_widths images ! c = Max (insert 0 ?S)"
    using assms by (simp add: eq fold_widen_nth)
  moreover have "?S \<noteq> {}"
  proof -
    have "c < Max (insert 0 (length ` set images))" using assms by (simp add: count_columns_eq)
    then obtain row where "row \<in> set images" "c < length row"
      by (auto simp: Max_gr_iff)
    then show ?thesis by blast
  qed
  ultimately show ?thesis by simp
qed


subsection \<open>Row heights\<close>

lemma raise_row:
  "row < length hs \<Longrightarrow>
   fold (\<lambda>col hs. hs[row := max (hs ! row) (g col)]) [0..<n] hs =
     hs[row := fold (\<lambda>col m. max m (g col)) [0..<n] (hs ! row)]"
  by (induction n) simp_all

lemma fold_max_height:
  "fold (\<lambda>col m. max m (height (r ! col))) [0..<length r] m0 = Max (insert m0 (height ` set r))"
proof -
  have "fold (\<lambda>img m. max m (height img)) r m0 = Max (insert m0 (height ` set r))" for m0
  proof (induction r arbitrary: m0)
    case Nil
    show ?case by simp
  next
    case (Cons img r)
    have "Max (insert (max m0 (height img)) (height ` set r)) =
          Max (insert m0 (insert (height img) (height ` set r)))"
      by (rule Max_insert_max) simp
    with Cons [of "max m0 (height img)"] show ?case by simp
  qed
  moreover have "fold (\<lambda>col. (\<lambda>img m. max m (height img)) (r ! col)) [0..<length r] m0 =
                 fold (\<lambda>img m. max m (height img)) r m0"
    by (rule fold_nth_index)
  ultimately show ?thesis by simp
qed

lemma row_heights_eq:
  "row_heights images = map (\<lambda>row. Max (insert 0 (height ` set row))) images"
proof -
  let ?H = "\<lambda>row. Max (insert 0 (height ` set row))"
  let ?n = "length images"
  have "fold (\<lambda>row heights.
        fold (\<lambda>col heights. heights[row := max (heights ! row) (height (images ! row ! col))])
          [0..<length (images ! row)] heights) [0..<k] (replicate ?n 0)
       = map (\<lambda>i. if i < k then ?H (images ! i) else 0) [0..<?n]" if "k \<le> ?n" for k
    using that
  proof (induction k)
    case 0
    show ?case by (simp add: map_replicate_const)
  next
    case (Suc k)
    then have k: "k < ?n" by simp
    define prev where "prev = map (\<lambda>i. if i < k then ?H (images ! i) else 0) [0..<?n]"
    have IH: "fold (\<lambda>row heights.
        fold (\<lambda>col heights. heights[row := max (heights ! row) (height (images ! row ! col))])
          [0..<length (images ! row)] heights) [0..<k] (replicate ?n 0) = prev"
      unfolding prev_def using Suc by simp
    have kp: "k < length prev" and pk: "prev ! k = 0" using k by (simp_all add: prev_def)
    have inner: "fold (\<lambda>col heights. heights[k := max (heights ! k) (height (images ! k ! col))])
          [0..<length (images ! k)] prev = prev[k := ?H (images ! k)]"
      by (simp add: raise_row [OF kp] fold_max_height pk)
    have "prev[k := ?H (images ! k)] = map (\<lambda>i. if i < Suc k then ?H (images ! i) else 0) [0..<?n]"
      using k by (intro nth_equalityI) (auto simp: prev_def nth_list_update less_Suc_eq)
    then show ?case by (simp add: IH inner)
  qed
  from this [of ?n] have "row_heights images = map (\<lambda>i. ?H (images ! i)) [0..<?n]"
    by (simp add: row_heights_def)
  also have "\<dots> = map ?H (map (\<lambda>i. images ! i) [0..<?n])" by (simp add: comp_def)
  also have "\<dots> = map ?H images" by (simp only: map_nth)
  finally show ?thesis .
qed

subsection \<open>Pasting\<close>

lemma paste_row_pastes:
  "pastes (fold (\<lambda>(col, img) cv. Paste cv img (f col)) xs cv) =
     pastes cv @ map (\<lambda>(col, img). (img, f col)) xs"
  by (induction xs arbitrary: cv) (auto split: prod.splits)


lemma paste_row_fill:
  "fill (fold (\<lambda>(col, img) cv. Paste cv img (f col)) xs cv) = fill cv"
  by (induction xs arbitrary: cv) (auto split: prod.splits)

lemma paste_rows_pastes:
  "pastes (fold (\<lambda>row cv. fold (\<lambda>(col, img) cv. Paste cv img (f row col)) (e row) cv) rows cv) =
     pastes cv @ concat (map (\<lambda>row. map (\<lambda>(col, img). (img, f row col)) (e row)) rows)"
  by (induction rows arbitrary: cv) (simp_all add: paste_row_pastes)


lemma paste_rows_fill:
  "fill (fold (\<lambda>row cv. fold (\<lambda>(col, img) cv. Paste cv img (f row col)) (e row) cv) rows cv) =
     fill cv"
  by (induction rows arbitrary: cv) (simp_all add: paste_row_fill)

lemma pastes_paste_images:
  "pastes (paste_images images widths heights cv) =
     pastes cv @
     concat (map (\<lambda>row. map (\<lambda>(col, img).
                    (img, sum_list (take col widths), sum_list (take row heights)))
                  (enumerate 0 (images ! row)))
               [0..<length images])"
  unfolding paste_images_def by (rule paste_rows_pastes)


lemma fill_paste_images:
  "fill (paste_images images widths heights cv) = fill cv"
  unfolding paste_images_def by (rule paste_rows_fill)

subsection \<open>Arranging a flat list\<close>

lemma arrange_row:
  "fold (\<lambda>col (paths_row, idx).
           (if idx < length paths then paths_row @ [paths ! idx] else paths_row, idx + 1))
     [0..<n] (acc, i) = (acc @ take n (drop i paths), i + n)"
proof (induction n)
  case 0
  show ?case by simp
next
  case (Suc n)
  show ?case
  proof (cases "i + n < length paths")
    case True
    then have "take (Suc n) (drop i paths) = take n (drop i paths) @ [paths ! (i + n)]"
      by (simp add: take_Suc_conv_app_nth)
    with Suc True show ?thesis by simp
  next
    case False
    then have "take (Suc n) (drop i paths) = take n (drop i paths)" by simp
    with Suc False show ?thesis by simp
  qed
qed

lemma arrange_eq:
  "arrange (r, c) paths = map (\<lambda>k. take (nat c) (drop (k * nat c) paths)) [0..<nat r]"
proof -
  define inner :: "nat \<Rightarrow> 'a list \<times> nat \<Rightarrow> 'a list \<times> nat" where
    "inner = (\<lambda>col (paths_row, idx).
                (if idx < length paths then paths_row @ [paths ! idx] else paths_row, idx + 1))"
  define outer :: "nat \<Rightarrow> 'a list list \<times> nat \<Rightarrow> 'a list list \<times> nat" where
    "outer = (\<lambda>row (paths', idx).
                (case fold inner [0..<nat c] ([], idx) of
                   (paths_row, idx') \<Rightarrow> (paths' @ [paths_row], idx')))"
  have inner_eq: "fold inner [0..<n] (acc, i) = (acc @ take n (drop i paths), i + n)" for n acc i
    unfolding inner_def by (rule arrange_row)
  have step: "outer m (acc, i) = (acc @ [take (nat c) (drop i paths)], i + nat c)" for m acc i
    by (simp add: outer_def inner_eq)
  have "fold outer [0..<m] ([], 0) =
        (map (\<lambda>k. take (nat c) (drop (k * nat c) paths)) [0..<m], m * nat c)" for m
    by (induction m) (simp_all add: step)
  moreover have "arrange (r, c) paths = fst (fold outer [0..<nat r] ([], 0))"
    by (simp add: arrange_def outer_def inner_def)
  ultimately show ?thesis by simp
qed

subsection \<open>The code's lists and the specification's words\<close>

lemma present_widths_set:
  "set (concat (map (\<lambda>row. if c < length row then [width (row ! c)] else []) images)) =
     {width (row ! c) |row. row \<in> set images \<and> c < length row}"
  by auto


lemma column_widths_spec_nth:
  "c < count_columns images \<Longrightarrow> column_widths images ! c = spec_column_width images c"
  by (simp only: column_widths_nth spec_column_width_def present_widths_set)

lemma take_column_widths:
  assumes "n \<le> count_columns images"
  shows "take n (column_widths images) = map (spec_column_width images) [0..<n]"
  using assms
  by (intro nth_equalityI) (simp_all add: length_column_widths column_widths_spec_nth)


lemma spec_row_height_eq: "spec_row_height row = Max (insert 0 (height ` set row))"
  by (cases row) (simp_all add: spec_row_height_def)

lemma row_heights_spec: "row_heights images = map spec_row_height images"
  by (simp add: row_heights_eq spec_row_height_eq)

lemma enumerate_nth: "enumerate 0 xs = map (\<lambda>c. (c, xs ! c)) [0..<length xs]"
  by (intro nth_equalityI) (simp_all add: nth_enumerate_eq)

lemma pastes_spec:
  "pastes (paste_images images (column_widths images) (row_heights images) cv) =
     pastes cv @ spec_pastes images"
proof -
  have row: "map (\<lambda>(col, img). (img, sum_list (take col (column_widths images)),
                                     sum_list (take r (row_heights images))))
               (enumerate 0 (images ! r)) =
             map (\<lambda>c. (images ! r ! c, spec_corner images r c)) [0..<length (images ! r)]"
    if r: "r < length images" for r
  proof -
    have le: "length (images ! r) \<le> count_columns images"
      using r by (simp add: length_le_count_columns)
    have "sum_list (take c (column_widths images)) = sum_list (map (spec_column_width images) [0..<c])"
      if "c < length (images ! r)" for c
      using that le by (simp add: take_column_widths)
    then show ?thesis
      by (simp add: enumerate_nth comp_def spec_corner_def row_heights_spec take_map)
  qed
  have "map (\<lambda>r. map (\<lambda>(col, img). (img, sum_list (take col (column_widths images)),
                                     sum_list (take r (row_heights images))))
               (enumerate 0 (images ! r))) [0..<length images] =
        map (\<lambda>r. map (\<lambda>c. (images ! r ! c, spec_corner images r c)) [0..<length (images ! r)])
          [0..<length images]"
    by (rule map_cong [OF refl]) (simp add: row)
  then show ?thesis
    unfolding pastes_paste_images spec_pastes_def by (simp only:)
qed

lemma tile_loaded_None:
  "tile_loaded images None background =
     Inr (paste_images images (column_widths images) (row_heights images)
            (New (sum_list (column_widths images), sum_list (row_heights images)) background))"
  by (simp add: tile_loaded_def Let_def)

lemma Image_resize_positive:
  "0 < w \<Longrightarrow> 0 < h \<Longrightarrow>
   Image_resize cv (w, h) = Inr (if canvas_size cv = (w, h) then cv else Resize cv (w, h))"
  by (simp add: Image_resize_def)

lemma tile_loaded_Some:
  "0 < w \<Longrightarrow> 0 < h \<Longrightarrow>
   tile_loaded images (Some (w, h)) background =
     Inr (if canvas_size (paste_images images (column_widths images) (row_heights images)
               (New (sum_list (column_widths images), sum_list (row_heights images)) background))
             = (w, h)
          then paste_images images (column_widths images) (row_heights images)
                 (New (sum_list (column_widths images), sum_list (row_heights images)) background)
          else Resize (paste_images images (column_widths images) (row_heights images)
                 (New (sum_list (column_widths images), sum_list (row_heights images)) background))
                 (w, h))"
  by (simp add: tile_loaded_def Let_def Image_resize_positive)

lemma image_tile_loaded:
  "map (map (to_image fs)) in_paths = map (map Inr) images \<Longrightarrow>
   image_tile fs in_paths resolution background = tile_loaded images resolution background"
  by (simp add: image_tile_def load_rows_Inr_iff [symmetric])

subsection \<open>Cells do not overlap\<close>

lemma width_le_spec_column:
  assumes "r < length images" "c < length (images ! r)"
  shows "width (images ! r ! c) \<le> spec_column_width images c"
proof -
  have "width (images ! r ! c) \<in> {width (row ! c) |row. row \<in> set images \<and> c < length row}"
    using assms by (auto intro: exI [of _ "images ! r"])
  then show ?thesis
    unfolding spec_column_width_def present_widths_set by (intro Max_ge) simp_all
qed

lemma height_le_spec_row:
  assumes "c < length row"
  shows "height (row ! c) \<le> spec_row_height row"
  using assms by (simp add: spec_row_height_eq)

lemma prefix_sum_mono:
  fixes f :: "nat \<Rightarrow> nat"
  shows "c \<le> c' \<Longrightarrow> sum_list (map f [0..<c]) \<le> sum_list (map f [0..<c'])"
  by (induction c') (auto simp: le_Suc_eq)

lemma prefix_interval_unique:
  fixes f :: "nat \<Rightarrow> nat"
  assumes "sum_list (map f [0..<c]) \<le> p" "p < sum_list (map f [0..<c]) + f c"
    and "sum_list (map f [0..<c']) \<le> p" "p < sum_list (map f [0..<c']) + w" "w \<le> f c'"
  shows "c' = c"
proof (rule ccontr)
  assume "c' \<noteq> c"
  then consider "c < c'" | "c' < c" by linarith
  then show False
  proof cases
    case 1
    then have "sum_list (map f [0..<Suc c]) \<le> sum_list (map f [0..<c'])"
      by (intro prefix_sum_mono) simp
    with assms show False by simp
  next
    case 2
    then have "sum_list (map f [0..<Suc c']) \<le> sum_list (map f [0..<c])"
      by (intro prefix_sum_mono) simp
    with assms show False by simp
  qed
qed

lemma take_rows_sum:
  "r \<le> length images \<Longrightarrow>
   sum_list (map g (take r images)) = sum_list (map (\<lambda>i. g (images ! i)) [0..<r])"
proof -
  assume "r \<le> length images"
  then have "take r images = map (\<lambda>i. images ! i) [0..<r]"
    by (intro nth_equalityI) simp_all
  then show ?thesis by (simp add: comp_def)
qed

lemma in_spec_pastes:
  "p \<in> set (spec_pastes images) \<longleftrightarrow>
     (\<exists>r c. r < length images \<and> c < length (images ! r) \<and>
            p = (images ! r ! c, spec_corner images r c))"
  by (force simp: spec_pastes_def image_iff)

lemma cell_owner:
  assumes r: "r < length images" and c: "c < length (images ! r)"
    and cell: "in_cell images r c px"
    and p: "p \<in> set (spec_pastes images)" and cov: "covers p px"
  shows "p = (images ! r ! c, spec_corner images r c)"
proof -
  from p obtain r' c' where r': "r' < length images" and c': "c' < length (images ! r')"
    and pe: "p = (images ! r' ! c', spec_corner images r' c')"
    unfolding in_spec_pastes by blast
  let ?X = "\<lambda>c. sum_list (map (spec_column_width images) [0..<c])"
  let ?g = "\<lambda>i. spec_row_height (images ! i)"
  let ?Y = "\<lambda>r. sum_list (map ?g [0..<r])"
  have cornr: "spec_corner images r c = (?X c, ?Y r)"
    using r by (simp add: spec_corner_def take_rows_sum)
  have cornr': "spec_corner images r' c' = (?X c', ?Y r')"
    using r' by (simp add: spec_corner_def take_rows_sum)
  have x: "?X c \<le> fst px" "fst px < ?X c + spec_column_width images c"
    and y: "?Y r \<le> snd px" "snd px < ?Y r + ?g r"
    using cell by (simp_all add: in_cell_def cornr)
  have x': "?X c' \<le> fst px" "fst px < ?X c' + width (images ! r' ! c')"
    and y': "?Y r' \<le> snd px" "snd px < ?Y r' + height (images ! r' ! c')"
    using cov by (simp_all add: covers_def pe cornr')
  have "c' = c"
    using x x' width_le_spec_column [OF r' c'] by (rule prefix_interval_unique)
  moreover have "r' = r"
    using y y' height_le_spec_row [OF c'] by (rule prefix_interval_unique)
  ultimately show ?thesis using pe by simp
qed

subsection \<open>Rows of an arrangement\<close>

lemma length_arrange: "length (arrange (r, c) xs) = nat r"
  by (simp add: arrange_eq)

lemma arrange_nth:
  "k < nat r \<Longrightarrow> arrange (r, c) xs ! k = take (nat c) (drop (k * nat c) xs)"
  by (simp add: arrange_eq)

lemma concat_chunks:
  "concat (map (\<lambda>k. take c (drop (k * c) xs)) [0..<m]) = take (m * c) xs"
proof (induction m)
  case 0
  show ?case by simp
next
  case (Suc m)
  have "Suc m * c = m * c + c" by simp
  then have "take (Suc m * c) xs = take (m * c) xs @ take c (drop (m * c) xs)"
    by (simp only: take_add)
  with Suc show ?case by simp
qed

lemma concat_arrange: "concat (arrange (r, c) xs) = take (nat r * nat c) xs"
  by (simp add: arrange_eq concat_chunks)

lemma arrange_map: "arrange (r, c) (map f xs) = map (map f) (arrange (r, c) xs)"
  by (simp add: arrange_eq take_map drop_map)

lemma arrange_take:
  "arrange (r, c) (take (nat r * nat c) xs) = arrange (r, c) xs"
proof -
  have "take (nat c) (drop (k * nat c) (take (nat r * nat c) xs)) =
        take (nat c) (drop (k * nat c) xs)" if "k < nat r" for k
  proof -
    have "Suc k * nat c \<le> nat r * nat c" using that by (intro mult_le_mono1) simp
    then have "nat c \<le> nat r * nat c - k * nat c" by simp
    then show ?thesis by (simp add: drop_take min_absorb1)
  qed
  then show ?thesis by (simp add: arrange_eq)
qed

lemma arrange_full_rows:
  assumes "nat r * nat c \<le> length xs" and "row \<in> set (arrange (r, c) xs)"
  shows "length row = nat c"
proof -
  from assms(2) obtain k where k: "k < nat r" and row: "row = take (nat c) (drop (k * nat c) xs)"
    by (auto simp: arrange_eq)
  have "Suc k * nat c \<le> nat r * nat c" using k by (intro mult_le_mono1) simp
  with assms(1) have "k * nat c + nat c \<le> length xs" by simp
  then show ?thesis by (simp add: row)
qed

lemma arrange_row_major:
  assumes "i < nat r * nat c" and "i < length xs"
  shows "arrange (r, c) xs ! (i div nat c) ! (i mod nat c) = xs ! i"
proof -
  have c: "0 < nat c" using assms(1) by (cases "nat c") simp_all
  have k: "i div nat c < nat r"
    using assms(1) by (simp add: less_mult_imp_div_less)
  have "arrange (r, c) xs ! (i div nat c) ! (i mod nat c) =
        take (nat c) (drop (i div nat c * nat c) xs) ! (i mod nat c)"
    by (simp add: arrange_nth [OF k])
  also have "\<dots> = drop (i div nat c * nat c) xs ! (i mod nat c)"
    using c by simp
  also have "\<dots> = xs ! (i div nat c * nat c + i mod nat c)"
  proof (rule nth_drop)
    have "i div nat c * nat c \<le> i" by simp
    with assms(2) show "i div nat c * nat c \<le> length xs" by linarith
  qed
  finally show ?thesis by simp
qed

lemma grid_layout_2d_shape:
  assumes "grid_layout_2d fp (int n) = Inr (rows, cols)"
  shows "nat rows * nat cols = n" and "1 \<le> rows" and "0 \<le> cols"
proof -
  have prod: "rows * cols = int n" and rows: "1 \<le> rows"
    using grid_layout_2d_product [OF assms] by simp_all
  show "1 \<le> rows" by (rule rows)
  have "0 \<le> rows * cols" using prod by simp
  then show cols: "0 \<le> cols" using rows by (simp add: zero_le_mult_iff)
  have "int (nat rows * nat cols) = int n"
    using rows cols prod by simp
  then show "nat rows * nat cols = n" by (simp only: of_nat_eq_iff)
qed

subsection \<open>The two modules\<close>

lemma load_row_map: "load_row ld (map f ps) = load_row (\<lambda>p. ld (f p)) ps"
  by (induction ps) (simp_all split: sum.splits)

lemma load_rows_map: "load_rows ld (map (map f) g) = load_rows (\<lambda>p. ld (f p)) g"
  by (induction g) (simp_all add: load_row_map split: sum.splits)

lemma load_rows_cong:
  assumes "map (map ld) g = map (map ld') g'"
  shows "load_rows ld g = load_rows ld' g'"
proof (cases "load_rows ld g")
  case (Inr images)
  then have "map (map ld') g' = map (map Inr) images"
    using assms by (simp add: load_rows_Inr_iff)
  then have "load_rows ld' g' = Inr images" by (simp add: load_rows_Inr_iff)
  with Inr show ?thesis by simp
next
  case (Inl e)
  have row: "load_row ld ps = load_row ld' ps'" if "map ld ps = map ld' ps'" for ps ps'
    using that
  proof (induction ps arbitrary: ps')
    case Nil
    then show ?case by simp
  next
    case (Cons p ps)
    then obtain q qs where ps': "ps' = q # qs" by (cases ps') auto
    with Cons.prems have "ld p = ld' q" "map ld ps = map ld' qs" by auto
    then show ?case using Cons.IH [of qs] by (simp add: ps' split: sum.splits)
  qed
  show ?thesis
    using assms
  proof (induction g arbitrary: g')
    case Nil
    then show ?case by simp
  next
    case (Cons r g)
    then obtain r' g2 where g': "g' = r' # g2" by (cases g') auto
    with Cons.prems have "map ld r = map ld' r'" "map (map ld) g = map (map ld') g2" by auto
    then show ?case using Cons.IH [of g2] row [of r r'] by (simp add: g' split: sum.splits)
  qed
qed

lemma image_tile_saving_eq:
  "image_tile_saving fs in_paths out_path resolution background =
     (case image_tile fs (map (map Path) in_paths) resolution background of
        Inl e \<Rightarrow> Inl e
      | Inr cv \<Rightarrow>
          (case Image_save cv out_path of
             Inl e \<Rightarrow> Inl e
           | Inr file \<Rightarrow> Inr \<lparr>returned = None, saved = [file]\<rparr>))"
  by (simp add: image_tile_saving_def image_tile_def load_rows_map split: sum.splits)

lemma image_tile_saving_loaded:
  "map (map (Image_open fs)) paths = map (map Inr) images \<Longrightarrow>
   image_tile_saving fs paths out_path resolution background =
     (case tile_loaded images resolution background of
        Inl e \<Rightarrow> Inl e
      | Inr cv \<Rightarrow>
          (case Image_save cv out_path of
             Inl e \<Rightarrow> Inl e
           | Inr file \<Rightarrow> Inr \<lparr>returned = None, saved = [file]\<rparr>))"
  by (simp add: image_tile_saving_def load_rows_Inr_iff [symmetric])

lemma Image_save_cases:
  "Image_save cv out_path =
     (if fst (canvas_size cv) = 0 \<or> snd (canvas_size cv) = 0 then Inl ValueError
      else Inr (out_path, cv))"
  by (simp add: Image_save_def)

lemma some_files_load:
  "map (map (to_image some_files)) [[Loaded img_a, Path ''b.png''], [Loaded img_c]] =
     map (map Inr) [[img_a, img_b], [img_c]]"
  "map (map (Image_open some_files)) [[''a.png'', ''b.png''], [''c.png'']] =
     map (map Inr) [[img_a, img_b], [img_c]]"
  by (simp_all add: Image_open_def some_files_def)

subsection \<open>The example grid\<close>


lemma spec_pastes_example:
  "spec_pastes [[img_a, img_b], [img_c]] = [(img_a, 0, 0), (img_b, 2, 0), (img_c, 0, 3)]"
  by (simp add: spec_pastes_def spec_corner_def spec_column_width_def spec_row_height_def
      img_a_def img_b_def img_c_def upt_rec)

lemma in_cell_example: "in_cell [[img_a, img_b], [img_c]] 1 0 (1, 3)"
  by (simp add: in_cell_def spec_corner_def spec_column_width_def spec_row_height_def
      img_a_def img_b_def img_c_def upt_rec)

lemma example_canvas:
  "image_tile some_files [[Loaded img_a, Path ''b.png''], [Loaded img_c]] None ''white'' =
     Inr (Paste (Paste (Paste (New (7, 4) ''white'') img_a (0, 0)) img_b (2, 0)) img_c (0, 3))"
  by (simp add: image_tile_def Image_open_def some_files_def tile_loaded_def
      column_widths_def row_heights_def count_columns_def paste_images_def
      img_a_def img_b_def img_c_def upt_rec)

section \<open>Claims about the grid layout\<close>







text \<open>
  Claim C4 says that the depth of \<open>grid_layout_3d count\<close> is the largest \<open>d\<close> in
  \<open>[2, floor (count ^ (1/3))]\<close> dividing \<open>count\<close>, followed by the 2D layout of
  \<open>count div d\<close>. At \<open>count = 64\<close> the cube root is 4 and that layout is
  \<open>(4, 4, 4)\<close>. In double precision \<^verbatim>\<open>64 ** (1.0 / 3.0)\<close> is
  \<open>3.9999999999999996\<close>, because \<^verbatim>\<open>1.0 / 3.0\<close> is below one third, so the
  bound \<^verbatim>\<open>int(count ** (1.0 / 3.0))\<close> is 3; \<^verbatim>\<open>int(32 ** (1.0 / 2.0))\<close> is 5.
  With these values the function returns \<open>(2, 4, 8)\<close>.
\<close>

theorem grid_layout_3d_at_64:
  assumes "pow_third fp 64 = 3" and "pow_half fp 32 = 5"
  shows "grid_layout_3d fp 64 = Inr (2, 4, 8) \<and>
         grid_layout_3d exact_roots 64 = Inr (4, 4, 4)"
proof -
  have "(64::int) < float_limit" "(32::int) < float_limit" "(16::int) < float_limit"
    by (rule below_float_limit, simp)+
  then have lim: "truncated_root f 64 = Inr (f 64)" "truncated_root f 32 = Inr (f 32)"
    "truncated_root f 16 = Inr (f 16)" for f
    by (simp_all add: truncated_root_Inr)
  have h4: "pow_half exact_roots 16 = 4"
    unfolding exact_roots_def using floor_sqrt_eq [of 4 16] by simp
  have "grid_layout_3d fp 64 = Inr (2, 4, 8)"
    using assms by (simp add: grid_layout_3d_def grid_layout_2d_def lim)
  moreover have "grid_layout_3d exact_roots 64 = Inr (4, 4, 4)"
    by (simp add: grid_layout_3d_def grid_layout_2d_def lim exact_third_64 h4)
  ultimately show ?thesis by simp
qed

theorem grid_layout_3d_at_64_witness:
  "pow_third (constant_roots 5 3) 64 = 3 \<and>
   pow_half (constant_roots 5 3) 32 = 5 \<and>
   grid_layout_3d (constant_roots 5 3) 64 = Inr (2, 4, 8)"
  using grid_layout_3d_at_64 [of "constant_roots 5 3"]
  by (simp add: constant_roots_def)

text \<open>
  Claim C10. At \<open>count = 0\<close> the square root evaluates to 0
  (\<^verbatim>\<open>0 ** 0.5 == 0.0\<close>), the search range \<open>[2..0]\<close> is empty, the divisor stays 1
  and \<open>grid_layout_2d\<close> returns \<open>(1, 0)\<close> without an error: the second component is
  not positive.
\<close>

theorem grid_layout_2d_zero:
  assumes "pow_half fp 0 = 0"
  shows "[2..pow_half fp 0] = [] \<and>
         grid_layout_2d fp 0 = Inr (1, 0) \<and>
         (\<forall>rows cols. grid_layout_2d fp 0 = Inr (rows, cols) \<longrightarrow> \<not> 0 < cols)"
proof -
  have "(0::int) < float_limit" by (rule below_float_limit) simp
  then have "truncated_root (pow_half fp) 0 = Inr (pow_half fp 0)"
    by (simp add: truncated_root_Inr)
  then show ?thesis using assms by (simp add: grid_layout_2d_def)
qed

theorem grid_layout_2d_zero_witness:
  "pow_half exact_roots 0 = 0 \<and> [2..pow_half exact_roots 0] = [] \<and>
   grid_layout_2d exact_roots 0 = Inr (1, 0)"
proof -
  have h: "pow_half exact_roots 0 = 0" by (simp add: exact_roots_def)
  with grid_layout_2d_zero [OF h] show ?thesis by simp
qed

section \<open>Claims about the tiler\<close>



text \<open>
  Claim C5. For a grid whose sources all load, \<open>image_tile\<close> pastes each image, as it
  was loaded, with its top-left corner at (the widths of the columns before its
  column, the heights of the rows before its row); these are the only pastes on a
  canvas filled with the background. Inside the cell of an image, no paste other than
  the one of that image at that corner paints a pixel: what the image does not reach
  stays background, and the image is not centred. A resize, if asked for, is applied
  once to the finished canvas (Pillow copies it when it has the size asked for).
  \<^verbatim>\<open>danpy/image_tile.py\<close> builds the same canvas and saves it, unless it has a zero
  side: then \<open>save\<close> raises ValueError.
\<close>

theorem image_tile_pastes:
  assumes "map (map (to_image fs)) in_paths = map (map Inr) images"
  shows "\<exists>cv. image_tile fs in_paths None background = Inr cv \<and>
              fill cv = background \<and>
              pastes cv = spec_pastes images \<and>
              (\<forall>r<length images. \<forall>c<length (images ! r). \<forall>px.
                 in_cell images r c px \<longrightarrow>
                 (\<forall>p\<in>set (pastes cv).
                    covers p px \<longrightarrow> p = (images ! r ! c, spec_corner images r c))) \<and>
              (0 < w \<and> 0 < h \<longrightarrow>
                 image_tile fs in_paths (Some (w, h)) background =
                   Inr (if canvas_size cv = (w, h) then cv else Resize cv (w, h))) \<and>
              (map (map (Image_open fs)) paths = map (map Inr) images \<longrightarrow>
                 image_tile_saving fs paths out_path None background =
                   (if fst (canvas_size cv) = 0 \<or> snd (canvas_size cv) = 0
                    then Inl ValueError
                    else Inr \<lparr>returned = None, saved = [(out_path, cv)]\<rparr>))"
proof -
  let ?cv = "paste_images images (column_widths images) (row_heights images)
            (New (sum_list (column_widths images), sum_list (row_heights images)) background)"
  have 1: "image_tile fs in_paths None background = Inr ?cv"
    by (simp add: image_tile_loaded [OF assms] tile_loaded_None)
  have 2: "fill ?cv = background" by (simp add: fill_paste_images)
  have 3: "pastes ?cv = spec_pastes images" by (simp add: pastes_spec)
  have 4: "p = (images ! r ! c, spec_corner images r c)"
    if "r < length images" "c < length (images ! r)" "in_cell images r c px"
      "p \<in> set (pastes ?cv)" "covers p px" for r c px p
    using that unfolding 3 by (rule cell_owner)
  have 5: "image_tile fs in_paths (Some (w, h)) background =
             Inr (if canvas_size ?cv = (w, h) then ?cv else Resize ?cv (w, h))"
    if "0 < w \<and> 0 < h"
    using that by (simp add: image_tile_loaded [OF assms] tile_loaded_Some)
  have 6: "image_tile_saving fs paths out_path None background =
             (if fst (canvas_size ?cv) = 0 \<or> snd (canvas_size ?cv) = 0
              then Inl ValueError
              else Inr \<lparr>returned = None, saved = [(out_path, ?cv)]\<rparr>)"
    if "map (map (Image_open fs)) paths = map (map Inr) images"
    by (simp add: image_tile_saving_loaded [OF that] tile_loaded_None Image_save_cases)
  show ?thesis
    using 1 2 3 4 5 6 by blast
qed

theorem image_tile_pastes_witness:
  "map (map (to_image some_files)) [[Loaded img_a, Path ''b.png''], [Loaded img_c]] =
     map (map Inr) [[img_a, img_b], [img_c]] \<and>
   (\<exists>cv. image_tile some_files [[Loaded img_a, Path ''b.png''], [Loaded img_c]] None ''white''
           = Inr cv \<and>
         pastes cv = [(img_a, 0, 0), (img_b, 2, 0), (img_c, 0, 3)] \<and>
         canvas_size cv = (7, 4) \<and>
         (1::nat) < length [[img_a, img_b], [img_c]] \<and>
         (0::nat) < length ([[img_a, img_b], [img_c]] ! 1) \<and>
         in_cell [[img_a, img_b], [img_c]] 1 0 (1, 3) \<and>
         (\<forall>p\<in>set (pastes cv). \<not> covers p (1, 3)) \<and>
         (0 < (20::nat) \<and> 0 < (10::nat)) \<and>
         image_tile some_files [[Loaded img_a, Path ''b.png''], [Loaded img_c]] (Some (20, 10))
             ''white'' = Inr (Resize cv (20, 10)) \<and>
         map (map (Image_open some_files)) [[''a.png'', ''b.png''], [''c.png'']] =
           map (map Inr) [[img_a, img_b], [img_c]] \<and>
         image_tile_saving some_files [[''a.png'', ''b.png''], [''c.png'']] ''out.png'' None ''white''
           = Inr \<lparr>returned = None, saved = [(''out.png'', cv)]\<rparr>)"
proof -
  note h = some_files_load
  from image_tile_pastes [OF h(1), where background = "''white''" and w = 20 and h = 10
      and paths = "[[''a.png'', ''b.png''], [''c.png'']]" and out_path = "''out.png''"]
  obtain cv where cv:
    "image_tile some_files [[Loaded img_a, Path ''b.png''], [Loaded img_c]] None ''white'' = Inr cv"
    "pastes cv = spec_pastes [[img_a, img_b], [img_c]]"
    "\<forall>r<length [[img_a, img_b], [img_c]]. \<forall>c<length ([[img_a, img_b], [img_c]] ! r). \<forall>px.
       in_cell [[img_a, img_b], [img_c]] r c px \<longrightarrow>
       (\<forall>p\<in>set (pastes cv).
          covers p px \<longrightarrow>
          p = ([[img_a, img_b], [img_c]] ! r ! c, spec_corner [[img_a, img_b], [img_c]] r c))"
    "0 < (20::nat) \<and> 0 < (10::nat) \<longrightarrow>
       image_tile some_files [[Loaded img_a, Path ''b.png''], [Loaded img_c]] (Some (20, 10))
         ''white'' = Inr (if canvas_size cv = (20, 10) then cv else Resize cv (20, 10))"
    "map (map (Image_open some_files)) [[''a.png'', ''b.png''], [''c.png'']] =
       map (map Inr) [[img_a, img_b], [img_c]] \<longrightarrow>
     image_tile_saving some_files [[''a.png'', ''b.png''], [''c.png'']] ''out.png'' None ''white''
       = (if fst (canvas_size cv) = 0 \<or> snd (canvas_size cv) = 0
          then Inl ValueError
          else Inr \<lparr>returned = None, saved = [(''out.png'', cv)]\<rparr>)"
    by blast
  have size: "canvas_size cv = (7, 4)"
    using cv(1) by (auto simp add: example_canvas)
  have own: "\<forall>p\<in>set (pastes cv). covers p (1, 3) \<longrightarrow> p = (img_c, 0, 3)"
    using cv(3) [rule_format, of 1 0 "(1, 3)"] in_cell_example
    by (simp add: spec_corner_def spec_row_height_def img_a_def img_b_def)
  have "\<not> covers (img_c, 0, 3) (1, 3)" by (simp add: covers_def img_c_def)
  with own have none: "\<forall>p\<in>set (pastes cv). \<not> covers p (1, 3)" by blast
  have saved: "image_tile_saving some_files [[''a.png'', ''b.png''], [''c.png'']] ''out.png'' None
      ''white'' = Inr \<lparr>returned = None, saved = [(''out.png'', cv)]\<rparr>"
    using cv(5) h(2) size by simp
  have resized: "image_tile some_files [[Loaded img_a, Path ''b.png''], [Loaded img_c]] (Some (20, 10))
         ''white'' = Inr (Resize cv (20, 10))"
    using cv(4) size by simp
  show ?thesis
    using h cv(1) cv(2) size none in_cell_example saved resized
    by (simp add: spec_pastes_example)
qed

text \<open>
  Claim C6. Without an explicit layout, \<open>image_tile_auto\<close> arranges the items in a grid
  of the shape \<open>grid_layout_2d (len items)\<close>, that is \<open>rows\<close> rows of \<open>cols\<close> items
  each, in row-major order: item \<open>i\<close> stands in row \<open>i div cols\<close> at column
  \<open>i mod cols\<close>. It then calls \<open>image_tile\<close> on that grid. The same holds in
  \<^verbatim>\<open>danpy/image_tile.py\<close>.
\<close>

theorem image_tile_auto_row_major:
  assumes "int (length items) < float_limit"
  shows "\<exists>rows cols.
           grid_layout_2d fp (int (length items)) = Inr (rows, cols) \<and>
           image_tile_auto fp fs items None resolution background =
             image_tile fs (arrange (rows, cols) items) resolution background \<and>
           length (arrange (rows, cols) items) = nat rows \<and>
           (\<forall>row\<in>set (arrange (rows, cols) items). length row = nat cols) \<and>
           (\<forall>i<length items.
              arrange (rows, cols) items ! (i div nat cols) ! (i mod nat cols) = items ! i) \<and>
           (length paths = length items \<longrightarrow>
              image_tile_auto_saving fp fs paths out_path None resolution background =
                image_tile_saving fs (arrange (rows, cols) paths) out_path resolution background)"
proof -
  have "0 \<le> int (length items)" by simp
  from grid_layout_2d_Inr [OF this assms]
  obtain rows cols where g: "grid_layout_2d fp (int (length items)) = Inr (rows, cols)"
    by blast
  have n: "nat rows * nat cols = length items"
    using g by (rule grid_layout_2d_shape)
  have 1: "image_tile_auto fp fs items None resolution background =
           image_tile fs (arrange (rows, cols) items) resolution background"
    by (simp add: image_tile_auto_def g)
  have 2: "length (arrange (rows, cols) items) = nat rows"
    by (rule length_arrange)
  have 3: "length row = nat cols" if "row \<in> set (arrange (rows, cols) items)" for row
    using that n by (intro arrange_full_rows [of rows cols items]) simp_all
  have 4: "arrange (rows, cols) items ! (i div nat cols) ! (i mod nat cols) = items ! i"
    if "i < length items" for i
    using that n by (intro arrange_row_major) simp_all
  have 5: "image_tile_auto_saving fp fs paths out_path None resolution background =
              image_tile_saving fs (arrange (rows, cols) paths) out_path resolution background"
    if "length paths = length items"
    by (simp add: image_tile_auto_saving_def that g)
  show ?thesis using g 1 2 3 4 5 by blast
qed

theorem image_tile_auto_row_major_witness:
  "int (length [Loaded img_a, Loaded img_b, Loaded img_c, Loaded img_a]) < float_limit \<and>
   grid_layout_2d exact_roots (int (length [Loaded img_a, Loaded img_b, Loaded img_c, Loaded img_a]))
     = Inr (2, 2) \<and>
   arrange (2, 2) [Loaded img_a, Loaded img_b, Loaded img_c, Loaded img_a] =
     [[Loaded img_a, Loaded img_b], [Loaded img_c, Loaded img_a]] \<and>
   image_tile_auto exact_roots no_files [Loaded img_a, Loaded img_b, Loaded img_c, Loaded img_a]
       None None ''white'' =
     image_tile no_files [[Loaded img_a, Loaded img_b], [Loaded img_c, Loaded img_a]] None ''white'' \<and>
   arrange (2, 2) [Loaded img_a, Loaded img_b, Loaded img_c, Loaded img_a] ! (2 div nat 2) ! (2 mod nat 2)
     = Loaded img_c"
proof -
  have l: "int (length [Loaded img_a, Loaded img_b, Loaded img_c, Loaded img_a]) < float_limit"
    by (rule below_float_limit) simp
  have h: "grid_layout_2d exact_roots (int (length [Loaded img_a, Loaded img_b, Loaded img_c, Loaded img_a]))
     = Inr (2, 2)"
    using l by (simp add: grid_layout_2d_def truncated_root_def exact_half_4)
  have a: "arrange (2, 2) [Loaded img_a, Loaded img_b, Loaded img_c, Loaded img_a] =
     [[Loaded img_a, Loaded img_b], [Loaded img_c, Loaded img_a]]"
    by (simp add: arrange_eq upt_rec)
  from image_tile_auto_row_major [OF l, where fp = exact_roots and fs = no_files
      and resolution = None and background = "''white''" and paths = "[]"
      and out_path = "''out.png''"]
  obtain rows cols where
    g: "grid_layout_2d exact_roots (int (length [Loaded img_a, Loaded img_b, Loaded img_c, Loaded img_a]))
          = Inr (rows, cols)" and
    t: "image_tile_auto exact_roots no_files [Loaded img_a, Loaded img_b, Loaded img_c, Loaded img_a]
          None None ''white'' =
        image_tile no_files (arrange (rows, cols) [Loaded img_a, Loaded img_b, Loaded img_c, Loaded img_a])
          None ''white''"
    by blast
  from g h have "rows = 2" "cols = 2" by simp_all
  with t have t': "image_tile_auto exact_roots no_files
        [Loaded img_a, Loaded img_b, Loaded img_c, Loaded img_a] None None ''white'' =
      image_tile no_files [[Loaded img_a, Loaded img_b], [Loaded img_c, Loaded img_a]] None ''white''"
    by (simp only: a)
  show ?thesis
    using l h a t' by (simp only: a) simp
qed

text \<open>
  Claim C7 says that an explicit layout \<open>(r, c)\<close> with \<open>r * c < len items\<close> makes
  \<open>image_tile_auto\<close> fail with an InvalidArgument error. The code has no such check:
  three items in a layout of one cell give the canvas of the first item alone.
\<close>

theorem image_tile_auto_small_layout_counterexample:
  "(1::int) * 1 < int (length [Loaded img_a, Loaded img_b, Loaded img_c]) \<and>
   image_tile_auto exact_roots no_files [Loaded img_a, Loaded img_b, Loaded img_c]
       (Some (1, 1)) None ''white'' =
     Inr (Paste (New (2, 3) ''white'') img_a (0, 0))"
  by (simp add: image_tile_auto_def arrange_eq image_tile_def tile_loaded_def
      column_widths_def row_heights_def count_columns_def paste_images_def img_a_def)

text \<open>
  Claim C7, amended. For an explicit layout \<open>(r, c)\<close> of non-negative numbers with
  \<open>r * c < len items\<close>, \<open>image_tile_auto\<close> raises no error over the layout: it
  arranges the first \<open>r * c\<close> items in \<open>r\<close> rows of \<open>c\<close>, row-major, leaves the other
  items out, and returns what \<open>image_tile\<close> returns on that grid, which is a canvas
  when these first items load and no resolution is given. \<^verbatim>\<open>danpy/image_tile.py\<close>
  arranges its paths in the same way.
\<close>

theorem image_tile_auto_small_layout:
  assumes "0 \<le> r" and "0 \<le> c" and "r * c < int (length items)"
  shows "image_tile_auto fp fs items (Some (r, c)) resolution background =
           image_tile fs (arrange (r, c) items) resolution background \<and>
         length (arrange (r, c) items) = nat r \<and>
         (\<forall>row\<in>set (arrange (r, c) items). length row = nat c) \<and>
         concat (arrange (r, c) items) = take (nat (r * c)) items \<and>
         (map (to_image fs) (take (nat (r * c)) items) = map Inr imgs \<longrightarrow>
            (\<exists>cv. image_tile_auto fp fs items (Some (r, c)) None background = Inr cv)) \<and>
         image_tile_auto_saving fp fs paths out_path (Some (r, c)) resolution background =
           image_tile_saving fs (arrange (r, c) paths) out_path resolution background"
proof -
  have rc: "nat (r * c) = nat r * nat c"
    using assms(1,2) by (simp add: nat_mult_distrib)
  have "nat (r * c) < length items"
    using assms by (simp add: nat_less_iff)
  then have lt: "nat r * nat c < length items"
    by (simp only: rc)
  have 1: "image_tile_auto fp fs items (Some (r, c)) res background =
           image_tile fs (arrange (r, c) items) res background" for res
    by (simp add: image_tile_auto_def)
  have 2: "length (arrange (r, c) items) = nat r" by (rule length_arrange)
  have 3: "length row = nat c" if "row \<in> set (arrange (r, c) items)" for row
    using that lt by (intro arrange_full_rows [of r c items]) simp_all
  have 4: "concat (arrange (r, c) items) = take (nat (r * c)) items"
    by (simp add: concat_arrange rc)
  have 5: "\<exists>cv. image_tile_auto fp fs items (Some (r, c)) None background = Inr cv"
    if h: "map (to_image fs) (take (nat (r * c)) items) = map Inr imgs"
  proof -
    have "map (map (to_image fs)) (arrange (r, c) items) =
          arrange (r, c) (map (to_image fs) (take (nat r * nat c) items))"
      by (simp only: arrange_map [symmetric] arrange_take take_map [symmetric])
    also have "\<dots> = map (map Inr) (arrange (r, c) imgs)"
      using h by (simp add: rc arrange_map)
    finally have "image_tile fs (arrange (r, c) items) None background =
        tile_loaded (arrange (r, c) imgs) None background"
      by (rule image_tile_loaded)
    then show ?thesis by (simp add: 1 tile_loaded_None)
  qed
  have 6: "image_tile_auto_saving fp fs paths out_path (Some (r, c)) resolution background =
           image_tile_saving fs (arrange (r, c) paths) out_path resolution background"
    by (simp add: image_tile_auto_saving_def)
  show ?thesis using 1 2 3 4 5 6 by blast
qed

theorem image_tile_auto_small_layout_witness:
  "(0::int) \<le> 1 \<and> (1::int) * 1 < int (length [Loaded img_a, Loaded img_b, Loaded img_c]) \<and>
   image_tile_auto exact_roots no_files [Loaded img_a, Loaded img_b, Loaded img_c]
       (Some (1, 1)) None ''white'' =
     image_tile no_files (arrange (1, 1) [Loaded img_a, Loaded img_b, Loaded img_c]) None ''white'' \<and>
   concat (arrange (1, 1) [Loaded img_a, Loaded img_b, Loaded img_c]) = [Loaded img_a] \<and>
   map (to_image no_files) (take (nat (1 * 1)) [Loaded img_a, Loaded img_b, Loaded img_c]) =
     map Inr [img_a] \<and>
   (\<exists>cv. image_tile_auto exact_roots no_files [Loaded img_a, Loaded img_b, Loaded img_c]
       (Some (1, 1)) None ''white'' = Inr cv)"
proof -
  have h: "map (to_image no_files) (take (nat (1 * 1)) [Loaded img_a, Loaded img_b, Loaded img_c]) =
     map Inr [img_a]" by simp
  have a: "concat (arrange (1, 1) [Loaded img_a, Loaded img_b, Loaded img_c]) = [Loaded img_a]"
    by (simp add: arrange_eq)
  note inst = image_tile_auto_small_layout [where r = 1 and c = 1
        and items = "[Loaded img_a, Loaded img_b, Loaded img_c]" and fp = exact_roots
        and fs = no_files and resolution = None and background = "''white''"
        and imgs = "[img_a]" and paths = "[]" and out_path = "''out.png''", simplified]
  from inst have 1: "image_tile_auto exact_roots no_files [Loaded img_a, Loaded img_b, Loaded img_c]
       (Some (1, 1)) None ''white'' =
     image_tile no_files (arrange (1, 1) [Loaded img_a, Loaded img_b, Loaded img_c]) None ''white''"
    by blast
  from inst obtain cv where "image_tile_auto exact_roots no_files [Loaded img_a, Loaded img_b, Loaded img_c]
       (Some (1, 1)) None ''white'' = Inr cv"
    by blast
  with 1 have "image_tile no_files (arrange (1, 1) [Loaded img_a, Loaded img_b, Loaded img_c])
       None ''white'' = Inr cv"
    by simp
  then have 2: "\<exists>cv. image_tile no_files (arrange (1, 1) [Loaded img_a, Loaded img_b, Loaded img_c])
       None ''white'' = Inr cv" ..
  show ?thesis
    using h a 1 2 by simp

qed



text \<open>
  Claim C9 says that every source of the tiler may be a path or a loaded image and that
  the result is an in-memory canvas, saving being left to the caller. The
  \<open>image_tile\<close> of \<^verbatim>\<open>danpy/image_tile.py\<close> takes paths only, saves the canvas to
  \<open>out_path\<close> itself and returns \<open>None\<close>.
\<close>

theorem image_tile_saving_counterexample:
  "image_tile_saving some_files [[''a.png'']] ''out.png'' None ''white'' =
     Inr \<lparr>returned = None, saved = [(''out.png'', Paste (New (2, 3) ''white'') img_a (0, 0))]\<rparr>"
  by (simp add: image_tile_saving_def Image_open_def some_files_def tile_loaded_def
      column_widths_def row_heights_def count_columns_def paste_images_def img_a_def
      Image_save_def)

text \<open>
  Claim C9, amended. In \<^verbatim>\<open>danpy/image.py\<close> a source may be a path or a loaded
  image: \<open>to_image\<close> opens the one and passes the other on, and raises TypeError on
  anything else, which makes \<open>image_tile\<close> raise it when all sources before that one
  load. The canvas depends only on the images the sources stand for, and \<open>image_tile\<close>
  returns it in memory, saving being left to the caller. The \<open>image_tile\<close> of
  \<^verbatim>\<open>danpy/image_tile.py\<close> takes paths only; it builds the same canvas from them,
  and then saves it to \<open>out_path\<close> and returns \<open>None\<close>, or raises ValueError from
  \<open>save\<close> when the canvas has a zero side.
\<close>

theorem image_tile_sources_and_result:
  "to_image fs (Loaded img) = Inr img \<and>
   to_image fs (Path p) = Image_open fs p \<and>
   to_image fs (Other t) = Inl TypeError \<and>
   (map (map (to_image fs)) before = map (map Inr) images \<and>
    map (to_image fs) row = map Inr imgs \<longrightarrow>
      image_tile fs (before @ (row @ Other t # rest) # after) resolution background =
        Inl TypeError) \<and>
   (map (map (to_image fs)) g = map (map (to_image fs)) g' \<longrightarrow>
      image_tile fs g resolution background = image_tile fs g' resolution background) \<and>
   image_tile_saving fs in_paths out_path resolution background =
     (case image_tile fs (map (map Path) in_paths) resolution background of
        Inl e \<Rightarrow> Inl e
      | Inr cv \<Rightarrow>
          if fst (canvas_size cv) = 0 \<or> snd (canvas_size cv) = 0 then Inl ValueError
          else Inr \<lparr>returned = None, saved = [(out_path, cv)]\<rparr>)"
proof -
  have row: "load_row (to_image fs) (row @ Other t # rest) = Inl TypeError"
    if "map (to_image fs) row = map Inr imgs" for row imgs
    using that
  proof (induction row arbitrary: imgs)
    case Nil
    then show ?case by simp
  next
    case (Cons s row)
    then obtain i imgs2 where "imgs = i # imgs2" by (cases imgs) auto
    with Cons.prems have "to_image fs s = Inr i" "map (to_image fs) row = map Inr imgs2"
      by auto
    then show ?case using Cons.IH [of imgs2] by simp
  qed
  have rows: "load_rows (to_image fs) (before @ (row @ Other t # rest) # after) = Inl TypeError"
    if "map (map (to_image fs)) before = map (map Inr) images"
      and r: "map (to_image fs) row = map Inr imgs" for before images
    using that(1)
  proof (induction before arbitrary: images)
    case Nil
    then show ?case by (simp add: row [OF r])
  next
    case (Cons b before)
    then obtain i images2 where "images = i # images2" by (cases images) auto
    with Cons.prems have b: "map (to_image fs) b = map Inr i"
      and "map (map (to_image fs)) before = map (map Inr) images2"
      by auto
    then have "load_rows (to_image fs) (before @ (row @ Other t # rest) # after) = Inl TypeError"
      using Cons.IH [of images2] by simp
    moreover have "load_row (to_image fs) b = Inr i"
      using b by (simp add: load_row_Inr_iff)
    ultimately show ?case by simp
  qed
  have 4: "image_tile fs (before @ (row @ Other t # rest) # after) resolution background =
        Inl TypeError"
    if "map (map (to_image fs)) before = map (map Inr) images \<and>
        map (to_image fs) row = map Inr imgs"
    using that rows by (simp add: image_tile_def)
  have 5: "image_tile fs g resolution background = image_tile fs g' resolution background"
    if "map (map (to_image fs)) g = map (map (to_image fs)) g'"
    using load_rows_cong [OF that] by (simp add: image_tile_def)
  have 6: "image_tile_saving fs in_paths out_path resolution background =
     (case image_tile fs (map (map Path) in_paths) resolution background of
        Inl e \<Rightarrow> Inl e
      | Inr cv \<Rightarrow>
          if fst (canvas_size cv) = 0 \<or> snd (canvas_size cv) = 0 then Inl ValueError
          else Inr \<lparr>returned = None, saved = [(out_path, cv)]\<rparr>)"
    by (simp add: image_tile_saving_eq Image_save_cases split: sum.splits)
  have 123: "to_image fs (Loaded img) = Inr img \<and>
   to_image fs (Path p) = Image_open fs p \<and>
   to_image fs (Other t) = Inl TypeError"
    by simp
  show ?thesis using 123 4 5 6 by blast
qed

theorem image_tile_sources_and_result_witness:
  "map (map (to_image some_files)) [[Path ''a.png'']] = map (map (to_image some_files)) [[Loaded img_a]] \<and>
   image_tile some_files [[Path ''a.png'']] None ''white'' =
     image_tile some_files [[Loaded img_a]] None ''white'' \<and>
   image_tile some_files [[Loaded img_a]] None ''white'' = Inr (Paste (New (2, 3) ''white'') img_a (0, 0)) \<and>
   map (map (to_image some_files)) [[Loaded img_a]] = map (map Inr) [[img_a]] \<and>
   map (to_image some_files) [Path ''b.png''] = map Inr [img_b] \<and>
   image_tile some_files ([[Loaded img_a]] @ ([Path ''b.png''] @ Other ''3'' # [Loaded img_c]) # [])
     None ''white'' = Inl TypeError"
proof -
  have h: "map (map (to_image some_files)) [[Path ''a.png'']] =
           map (map (to_image some_files)) [[Loaded img_a]]"
    by (simp add: Image_open_def some_files_def)
  have e: "image_tile some_files [[Loaded img_a]] None ''white'' = Inr (Paste (New (2, 3) ''white'') img_a (0, 0))"
    by (simp add: image_tile_def tile_loaded_def
      column_widths_def row_heights_def count_columns_def paste_images_def img_a_def)
  have l: "map (map (to_image some_files)) [[Loaded img_a]] = map (map Inr) [[img_a]]"
    "map (to_image some_files) [Path ''b.png''] = map Inr [img_b]"
    by (simp_all add: Image_open_def some_files_def)
  note inst = image_tile_sources_and_result [where fs = some_files and img = img_a
      and p = "''a.png''" and g = "[[Path ''a.png'']]" and g' = "[[Loaded img_a]]"
      and resolution = None and background = "''white''" and in_paths = "[]"
      and out_path = "''out.png''" and before = "[[Loaded img_a]]" and images = "[[img_a]]"
      and row = "[Path ''b.png'']" and imgs = "[img_b]" and t = "''3''"
      and rest = "[Loaded img_c]" and after = "[]"]
  from inst h have 1: "image_tile some_files [[Path ''a.png'']] None ''white'' =
     image_tile some_files [[Loaded img_a]] None ''white''"
    by blast
  from inst l have 2: "image_tile some_files
      ([[Loaded img_a]] @ ([Path ''b.png''] @ Other ''3'' # [Loaded img_c]) # []) None ''white''
      = Inl TypeError"
    by blast
  show ?thesis
    using h e l 1 2 by blast
qed

end
